theory Spec2Isabelle
  imports Main
begin

section \<open>Python values\<close>

text \<open>
  The utilities of \<^verbatim>\<open>okta_mcp/utils\<close> are dynamically typed: the normaliser inspects the
  run-time shape of whatever the SDK returned, and the paginator tests values for
  truthiness and for attributes. The values are therefore modelled by one datatype.
  An exception instance records its class name, the fixed text of its message and the
  value interpolated into the message; \<open>Exn\<close> is an instance of a class that derives
  from \<^verbatim>\<open>Exception\<close>, \<open>BaseExn\<close> an instance of a class that derives from
  \<^verbatim>\<open>BaseException\<close> without deriving from \<^verbatim>\<open>Exception\<close>. An instance of a user-defined class is its
  attribute dictionary; such instances are truthy (classes overriding
  \<^verbatim>\<open>__bool__\<close> or \<^verbatim>\<open>__len__\<close> are outside the model).

  The values are those whose special methods are the built-in ones: a truth test, an
  attribute read, \<^verbatim>\<open>str()\<close> and the formatting of a value in an f-string return, and
  only lists, tuples and strings can be iterated and have a length. Where a claim is
  about what the code of a value's class may do, that code is a parameter of the
  model (the object protocol of the normaliser, the cursor of the walker).
\<close>

datatype pyval =
    PNone
  | PBool bool
  | PInt int
  | PStr string
  | PTuple "pyval list"
  | PList "pyval list"
  | PExc exn
  | PObj "(string \<times> pyval) list"
and exn =
    Exn (exn_class: string) (exn_text: string) (exn_arg: pyval)
  | BaseExn (exn_class: string) (exn_text: string) (exn_arg: pyval)

text \<open>Truthiness, as \<^verbatim>\<open>if v:\<close> and \<^verbatim>\<open>a and b\<close> test it.\<close>

fun truthy :: "pyval \<Rightarrow> bool" where
  "truthy PNone = False"
| "truthy (PBool b) = b"
| "truthy (PInt i) = (i \<noteq> 0)"
| "truthy (PStr s) = (s \<noteq> [])"
| "truthy (PTuple xs) = (xs \<noteq> [])"
| "truthy (PList xs) = (xs \<noteq> [])"
| "truthy (PExc e) = True"
| "truthy (PObj attrs) = True"

text \<open>
  Attribute lookup. It is only used for the names \<^verbatim>\<open>as_dict\<close>, \<^verbatim>\<open>response\<close> and
  \<^verbatim>\<open>has_next\<close>, which no built-in type defines, so only instances can have them
  (exception instances are taken to carry none of them).
\<close>

fun py_getattr :: "pyval \<Rightarrow> string \<Rightarrow> pyval option" where
  "py_getattr (PObj attrs) name = map_of attrs name"
| "py_getattr _ name = None"

definition hasattr :: "pyval \<Rightarrow> string \<Rightarrow> bool" where
  "hasattr v name = (py_getattr v name \<noteq> None)"

definition getattr_default :: "pyval \<Rightarrow> string \<Rightarrow> pyval \<Rightarrow> pyval" where
  "getattr_default v name d = (case py_getattr v name of Some a \<Rightarrow> a | None \<Rightarrow> d)"

section \<open>Response normaliser\<close>

text \<open>
  \<^verbatim>\<open>normalize_okta_response\<close>. The source has no \<^verbatim>\<open>raise\<close>: every branch returns.
  The message of the \<^verbatim>\<open>ValueError\<close> is formatted from the whole response; the number
  of elements only goes to the log.
\<close>

definition normalize_okta_response :: "pyval \<Rightarrow> pyval" where
  "normalize_okta_response response =
     (case response of
        PTuple xs \<Rightarrow>
          if length xs = 3 then response
          else if length xs = 2 then PTuple [xs ! 0, xs ! 1, PNone]
          else PTuple [PNone, PNone,
                 PExc (Exn ''ValueError'' ''Unexpected response format: '' response)]
      | _ \<Rightarrow> PTuple [response, getattr_default response ''response'' PNone, PNone])"

text \<open>
  The normaliser as section 4.2 of the specification words it, for comparison with the
  source: a wrong-sized tuple is reported by an error carrying the element count, a
  bare object becomes a one-element item list, and an absent input becomes three
  nulls.
\<close>

definition normalize_spec :: "pyval \<Rightarrow> pyval" where
  "normalize_spec response =
     (case response of
        PTuple xs \<Rightarrow>
          if length xs = 3 then response
          else if length xs = 2 then PTuple [xs ! 0, xs ! 1, PNone]
          else PTuple [PNone, PNone,
                 PExc (Exn ''UnexpectedShapeError'' ''element count: '' (PInt (int (length xs))))]
      | PNone \<Rightarrow> PTuple [PNone, PNone, PNone]
      | _ \<Rightarrow> PTuple [PList [response], getattr_default response ''response'' PNone, PNone])"

subsection \<open>The normaliser on objects that run code of their own\<close>










section \<open>Pagination walker\<close>

subsection \<open>Exceptions, iteration and unpacking\<close>

text \<open>
  A call either returns a value or raises. \<^verbatim>\<open>except Exception\<close> catches exactly the
  instances of \<^verbatim>\<open>Exception\<close>. Instances of the other classes pass it:
  \<^verbatim>\<open>KeyboardInterrupt\<close>, \<^verbatim>\<open>SystemExit\<close>, \<^verbatim>\<open>GeneratorExit\<close>,
  \<^verbatim>\<open>asyncio.CancelledError\<close> (since Python 3.8), \<^verbatim>\<open>BaseException\<close> itself,
  \<^verbatim>\<open>BaseExceptionGroup\<close>, and every user class of that kind.
\<close>

datatype 'a outcome = Returns 'a | Raises exn

fun is_Exception :: "exn \<Rightarrow> bool" where
  "is_Exception (Exn c t a) = True"
| "is_Exception (BaseExn c t a) = False"

text \<open>
  What a \<^verbatim>\<open>for\<close> clause iterates over: the elements of a list or tuple, the
  one-character strings of a string; anything else raises \<^verbatim>\<open>TypeError\<close>.
\<close>

fun iterate :: "pyval \<Rightarrow> exn + pyval list" where
  "iterate (PList xs) = Inr xs"
| "iterate (PTuple xs) = Inr xs"
| "iterate (PStr s) = Inr (map (\<lambda>c. PStr [c]) s)"
| "iterate v = Inl (Exn ''TypeError'' ''object is not iterable: '' v)"

text \<open>
  \<^verbatim>\<open>len(v)\<close>, which both log statements of the walker evaluate: the number of
  elements of a list, tuple or string; anything else raises \<^verbatim>\<open>TypeError\<close>.
\<close>

fun py_len :: "pyval \<Rightarrow> exn + nat" where
  "py_len (PList xs) = Inr (length xs)"
| "py_len (PTuple xs) = Inr (length xs)"
| "py_len (PStr s) = Inr (length s)"
| "py_len v = Inl (Exn ''TypeError'' ''object has no len(): '' v)"

text \<open>The target list \<^verbatim>\<open>a, b = v\<close>: \<^verbatim>\<open>v\<close> must iterate to exactly two values.\<close>

definition unpack2 :: "pyval \<Rightarrow> exn + (pyval \<times> pyval)" where
  "unpack2 v =
     (case iterate v of
        Inl e \<Rightarrow> Inl e
      | Inr [a, b] \<Rightarrow> Inr (a, b)
      | Inr _ \<Rightarrow> Inl (Exn ''ValueError'' ''wrong number of values to unpack: '' v))"

text \<open>The filter \<^verbatim>\<open>r and hasattr(r, 'as_dict')\<close> of both comprehensions.\<close>

definition valid_item :: "pyval \<Rightarrow> bool" where
  "valid_item r = (truthy r \<and> hasattr r ''as_dict'')"

subsection \<open>The cursor\<close>

text \<open>
  The response object of the SDK is stateful: \<^verbatim>\<open>next()\<close> advances it. The walker calls
  \<^verbatim>\<open>has_next()\<close> and then \<^verbatim>\<open>next()\<close> once per iteration, so the behaviour of a cursor
  towards the walker is what these two calls do in iteration \<open>0\<close>, \<open>1\<close>, \<open>2\<close>, ...:
  each may return any value or raise. Iteration \<open>i\<close> fetches page \<open>i + 2\<close>, the
  initial response being page \<open>1\<close>.
\<close>

record page_step =
  has_next_call :: "pyval outcome"
  next_call :: "pyval outcome"

type_synonym cursor = "nat \<Rightarrow> page_step"

subsection \<open>The loop\<close>

text \<open>
  The state of the \<^verbatim>\<open>while\<close> loop when it is left: the two variables the loop
  updates, the exception (if any) that left the \<^verbatim>\<open>try\<close> block, and two counters
  that are not in the source and record how often the cursor was called.
\<close>

record loop_exit =
  exit_page_count :: int
  exit_results :: "pyval list"
  exit_raised :: "exn option"
  exit_fetches :: nat
  exit_probes :: nat

function walk_pages ::
  "int \<Rightarrow> cursor \<Rightarrow> pyval \<Rightarrow> int \<Rightarrow> pyval list \<Rightarrow> nat \<Rightarrow> nat \<Rightarrow> loop_exit" where
  "walk_pages max_pages sc response page_count all_results i h =
     (if page_count < max_pages \<and> truthy response \<and> hasattr response ''has_next'' then
        (case has_next_call (sc i) of
           Raises e \<Rightarrow>
             \<lparr>exit_page_count = page_count, exit_results = all_results,
              exit_raised = Some e, exit_fetches = i, exit_probes = h + 1\<rparr>
         | Returns has_more \<Rightarrow>
             if truthy has_more then
               (case next_call (sc i) of
                  Raises e \<Rightarrow>
                    \<lparr>exit_page_count = page_count + 1, exit_results = all_results,
                     exit_raised = Some e, exit_fetches = i + 1, exit_probes = h + 1\<rparr>
                | Returns v \<Rightarrow>
                    (case unpack2 v of
                       Inl e \<Rightarrow>
                         \<lparr>exit_page_count = page_count + 1, exit_results = all_results,
                          exit_raised = Some e, exit_fetches = i + 1, exit_probes = h + 1\<rparr>
                     | Inr (next_users, next_err) \<Rightarrow>
                         if truthy next_err then
                           \<lparr>exit_page_count = page_count + 1, exit_results = all_results,
                            exit_raised = None, exit_fetches = i + 1, exit_probes = h + 1\<rparr>
                         else
                           (case iterate next_users of
                              Inl e \<Rightarrow>
                                \<lparr>exit_page_count = page_count + 1, exit_results = all_results,
                                 exit_raised = Some e, exit_fetches = i + 1,
                                 exit_probes = h + 1\<rparr>
                            | Inr users \<Rightarrow>
                                (case py_len next_users of
                                   Inl e \<Rightarrow>
                                     \<lparr>exit_page_count = page_count + 1,
                                      exit_results = all_results, exit_raised = Some e,
                                      exit_fetches = i + 1, exit_probes = h + 1\<rparr>
                                 | Inr raw \<Rightarrow>
                                     walk_pages max_pages sc response (page_count + 1)
                                       (all_results @ filter valid_item users) (i + 1)
                                       (h + 1)))))
             else
               \<lparr>exit_page_count = page_count, exit_results = all_results,
                exit_raised = None, exit_fetches = i, exit_probes = h + 1\<rparr>)
      else
        \<lparr>exit_page_count = page_count, exit_results = all_results,
         exit_raised = None, exit_fetches = i, exit_probes = h\<rparr>)"
  by pat_completeness auto
termination
  by (relation "measure (\<lambda>(max_pages, sc, response, page_count, all_results, i, h).
        nat (max_pages - page_count))") auto

declare walk_pages.simps [simp del]

subsection \<open>The walk\<close>

text \<open>
  \<^verbatim>\<open>paginate_okta_response\<close> returns a 4-tuple. \<^verbatim>\<open>max_pages\<close> is the module constant
  \<^verbatim>\<open>DEFAULT_PAGINATION_LIMIT\<close>, read from the environment, and is a parameter here.
  The first comprehension and the \<^verbatim>\<open>len()\<close> of the log statement after it are outside
  the \<^verbatim>\<open>try\<close> block, so their \<^verbatim>\<open>TypeError\<close> leaves the function; inside the block
  only exceptions that are not instances of \<^verbatim>\<open>Exception\<close> do. The handler logs
  \<^verbatim>\<open>str(e)\<close>, and the loop logs the page error; on the values of the model both
  return, so neither is a branch.
\<close>

record walk_result =
  ret_results :: pyval
  ret_response :: pyval
  ret_error :: pyval
  ret_page_count :: int

record walk =
  returned :: "exn + walk_result"
  next_calls :: nat
  has_next_calls :: nat

definition paginate_okta_response ::
  "int \<Rightarrow> cursor \<Rightarrow> pyval \<Rightarrow> pyval \<Rightarrow> pyval \<Rightarrow> walk" where
  "paginate_okta_response max_pages sc initial_results initial_resp initial_err =
     (if truthy initial_err then
        \<lparr>returned = Inr \<lparr>ret_results = initial_results, ret_response = initial_resp,
                          ret_error = initial_err, ret_page_count = 1\<rparr>,
         next_calls = 0, has_next_calls = 0\<rparr>
      else
        (case iterate initial_results of
           Inl e \<Rightarrow> \<lparr>returned = Inl e, next_calls = 0, has_next_calls = 0\<rparr>
         | Inr items \<Rightarrow>
             (case py_len initial_results of
                Inl e \<Rightarrow> \<lparr>returned = Inl e, next_calls = 0, has_next_calls = 0\<rparr>
              | Inr raw \<Rightarrow>
                  (let ex = walk_pages max_pages sc initial_resp 1 (filter valid_item items) 0 0;
                       ret = \<lparr>ret_results = PList (exit_results ex),
                              ret_response = initial_resp, ret_error = PNone,
                              ret_page_count = exit_page_count ex\<rparr>
                   in \<lparr>returned =
                         (case exit_raised ex of
                            None \<Rightarrow> Inr ret
                          | Some e \<Rightarrow> if is_Exception e then Inr ret else Inl e),
                       next_calls = exit_fetches ex, has_next_calls = exit_probes ex\<rparr>))))"

subsection \<open>Concrete cursors\<close>

text \<open>
  An item as the SDK returns it (an object with an \<^verbatim>\<open>as_dict\<close> method), a page of ten
  of them, and a response object offering \<^verbatim>\<open>has_next\<close> and \<^verbatim>\<open>next\<close>.
\<close>

definition okta_item :: "nat \<Rightarrow> pyval" where
  "okta_item n = PObj [(''as_dict'', PStr ''method''), (''id'', PInt (int n))]"

definition ten_items :: "nat \<Rightarrow> pyval list" where
  "ten_items p = map (\<lambda>k. okta_item (10 * p + k)) [0..<10]"

definition okta_response :: pyval where
  "okta_response = PObj [(''has_next'', PStr ''method''), (''next'', PStr ''method'')]"

definition page_error :: pyval where
  "page_error = PExc (Exn ''OktaAPIError'' ''E0000047: API call exceeded rate limit'' PNone)"

text \<open>
  Five pages of ten items each, the initial response being page 1; fetching page 3
  returns an error.
\<close>

definition five_pages_third_fails :: cursor where
  "five_pages_third_fails i =
     \<lparr>has_next_call = Returns (PBool (i < 4)),
      next_call = (if i = 1 then Returns (PTuple [PNone, page_error])
                   else Returns (PTuple [PList (ten_items (i + 2)), PNone]))\<rparr>"

text \<open>A cursor whose page 2 is empty and whose page 3 holds one item.\<close>

definition empty_second_page :: cursor where
  "empty_second_page i =
     \<lparr>has_next_call = Returns (PBool (i < 2)),
      next_call = (if i = 0 then Returns (PTuple [PList [], PNone])
                   else Returns (PTuple [PList [okta_item 7], PNone]))\<rparr>"

text \<open>A cursor that never ends: every page holds one item and another page follows.\<close>

definition endless :: cursor where
  "endless i =
     \<lparr>has_next_call = Returns (PBool True),
      next_call = Returns (PTuple [PList [okta_item i], PNone])\<rparr>"

text \<open>
  A cursor whose fetch is cancelled (the task awaiting \<^verbatim>\<open>next()\<close> receives
  \<^verbatim>\<open>CancelledError\<close>), and one whose second fetch raises an ordinary exception.
\<close>

definition cancelled_fetch :: cursor where
  "cancelled_fetch i =
     \<lparr>has_next_call = Returns (PBool True),
      next_call = Raises (BaseExn ''CancelledError'' [] PNone)\<rparr>"

definition broken_second_fetch :: cursor where
  "broken_second_fetch i =
     \<lparr>has_next_call = Returns (PBool True),
      next_call = (if i = 1 then Raises (Exn ''RuntimeError'' ''connection reset'' PNone)
                   else Returns (PTuple [PList [okta_item i], PNone]))\<rparr>"

subsection \<open>What a cursor does in one iteration\<close>

text \<open>
  \<open>continues\<close>: the part of the loop condition that does not depend on the budget.
  \<open>page_items\<close>: the items of a fetch that succeeds, that is, \<^verbatim>\<open>next()\<close> returns a
  pair of an iterable and a falsy error. \<open>page_fails\<close>: \<^verbatim>\<open>next()\<close> returns a pair
  whose error is truthy.
\<close>

definition continues :: "pyval \<Rightarrow> cursor \<Rightarrow> nat \<Rightarrow> bool" where
  "continues response sc i =
     (truthy response \<and> hasattr response ''has_next'' \<and>
      (case has_next_call (sc i) of Returns b \<Rightarrow> truthy b | Raises e \<Rightarrow> False))"

definition page_items :: "cursor \<Rightarrow> nat \<Rightarrow> pyval list option" where
  "page_items sc i =
     (case next_call (sc i) of
        Raises e \<Rightarrow> None
      | Returns v \<Rightarrow>
          (case unpack2 v of
             Inl e \<Rightarrow> None
           | Inr (next_users, next_err) \<Rightarrow>
               if truthy next_err then None
               else (case iterate next_users of Inl e \<Rightarrow> None | Inr users \<Rightarrow> Some users)))"

definition page_fails :: "cursor \<Rightarrow> nat \<Rightarrow> bool" where
  "page_fails sc i =
     (case next_call (sc i) of
        Raises e \<Rightarrow> False
      | Returns v \<Rightarrow>
          (case unpack2 v of Inl e \<Rightarrow> False | Inr (next_users, next_err) \<Rightarrow> truthy next_err))"

text \<open>
  The valid items of the page fetched in iteration \<open>i\<close> (none if the fetch does not
  succeed), and of the pages fetched in iterations \<open>0\<close>, ..., \<open>n - 1\<close>.
\<close>

definition page_valid_items :: "cursor \<Rightarrow> nat \<Rightarrow> pyval list" where
  "page_valid_items sc i =
     (case page_items sc i of None \<Rightarrow> [] | Some users \<Rightarrow> filter valid_item users)"

definition fetched_items :: "cursor \<Rightarrow> nat \<Rightarrow> pyval list" where
  "fetched_items sc n = concat (map (page_valid_items sc) [0..<n])"

text \<open>A cursor none of whose calls raises an exception that \<^verbatim>\<open>except Exception\<close> misses.\<close>

definition raises_only_Exceptions :: "cursor \<Rightarrow> bool" where
  "raises_only_Exceptions sc =
     (\<forall>i e. has_next_call (sc i) = Raises e \<or> next_call (sc i) = Raises e \<longrightarrow> is_Exception e)"

section \<open>Request manager\<close>

text \<open>
  \<^verbatim>\<open>RequestManager\<close> has three mutable fields: the limit, the counter and the FIFO
  queue of task descriptors. A task descriptor is identified by a number. Both
  sections guarded by \<^verbatim>\<open>self.lock\<close> contain no suspension point (the queue is
  unbounded, and \<^verbatim>\<open>get\<close> is only called on a non-empty queue), so each is one atomic
  step. The remaining fields are not in the source; they record where every admitted
  call is: \<open>running\<close> (its \<^verbatim>\<open>func\<close> is being awaited), \<open>releasing\<close> (its \<^verbatim>\<open>func\<close> has
  returned or raised and \<^verbatim>\<open>_release_slot\<close> has not yet run), \<open>spawned\<close> (taken from the
  queue and passed to \<^verbatim>\<open>create_task\<close>, not yet started), and \<open>settled\<close> (the futures
  that were given a result, \<open>True\<close>, or an exception, \<open>False\<close>).
\<close>

type_synonym task = nat

record request_manager =
  concurrent_limit :: int
  active_requests :: int
  request_queue :: "task list"
  running :: "task list"
  releasing :: "task list"
  spawned :: "task list"
  settled :: "(task \<times> bool) list"

definition new_request_manager :: "int \<Rightarrow> request_manager" where
  "new_request_manager limit =
     \<lparr>concurrent_limit = limit, active_requests = 0, request_queue = [],
      running = [], releasing = [], spawned = [], settled = []\<rparr>"

text \<open>The locked section of \<^verbatim>\<open>execute\<close>: take a slot and run, or join the queue.\<close>

definition execute_admit :: "task \<Rightarrow> request_manager \<Rightarrow> request_manager" where
  "execute_admit task_desc s =
     (if active_requests s < concurrent_limit s then
        s\<lparr>active_requests := active_requests s + 1, running := running s @ [task_desc]\<rparr>
      else
        s\<lparr>request_queue := request_queue s @ [task_desc]\<rparr>)"

text \<open>
  \<^verbatim>\<open>_release_slot\<close>: the head of the queue, if there is one, is handed to
  \<^verbatim>\<open>create_task\<close> and the counter is left alone; otherwise the counter is decremented.
\<close>

definition release_slot :: "request_manager \<Rightarrow> request_manager" where
  "release_slot s =
     (case request_queue s of
        next_task # rest \<Rightarrow> s\<lparr>request_queue := rest, spawned := spawned s @ [next_task]\<rparr>
      | [] \<Rightarrow> s\<lparr>active_requests := active_requests s - 1\<rparr>)"

text \<open>
  The steps of the manager. \<open>Submit\<close>: a caller enters \<^verbatim>\<open>execute\<close>. \<open>Finish t ok\<close>: the
  awaited \<^verbatim>\<open>func\<close> of a running call returns (\<open>ok\<close>) or raises; either way its future is
  settled and the \<^verbatim>\<open>finally\<close> clause is entered. \<open>Release\<close>: that clause runs
  \<^verbatim>\<open>_release_slot\<close>. \<open>Start\<close>: a task created by \<^verbatim>\<open>_release_slot\<close> begins
  \<^verbatim>\<open>_execute_queued_task\<close>. A step that is not enabled yields \<open>None\<close>.
\<close>

datatype event = Submit task | Finish task bool | Release task | Start task

fun rm_step :: "event \<Rightarrow> request_manager \<Rightarrow> request_manager option" where
  "rm_step (Submit t) s = Some (execute_admit t s)"
| "rm_step (Finish t ok) s =
     (if t \<in> set (running s) then
        Some (s\<lparr>running := remove1 t (running s), releasing := releasing s @ [t],
                settled := settled s @ [(t, ok)]\<rparr>)
      else None)"
| "rm_step (Release t) s =
     (if t \<in> set (releasing s) then
        Some (release_slot (s\<lparr>releasing := remove1 t (releasing s)\<rparr>))
      else None)"
| "rm_step (Start t) s =
     (if t \<in> set (spawned s) then
        Some (s\<lparr>spawned := remove1 t (spawned s), running := running s @ [t]\<rparr>)
      else None)"

fun run :: "event list \<Rightarrow> request_manager \<Rightarrow> request_manager option" where
  "run [] s = Some s"
| "run (ev # evs) s = (case rm_step ev s of None \<Rightarrow> None | Some s' \<Rightarrow> run evs s')"

text \<open>The calls that hold a slot, and the state in which no call is pending.\<close>

definition holders :: "request_manager \<Rightarrow> nat" where
  "holders s = length (running s) + length (releasing s) + length (spawned s)"







text \<open>
  Two runs. Five calls against a limit of two: two run at once, three wait, and when
  the first one completes the head of the queue is promoted. Two calls against a limit
  of one, the first of which raises.
\<close>

definition five_calls_limit_two :: "event list" where
  "five_calls_limit_two =
     [Submit 1, Submit 2, Submit 3, Submit 4, Submit 5, Finish 1 True, Release 1, Start 3]"


section \<open>Properties of the pagination loop\<close>

text \<open>
  Whatever the walker can iterate over has a length, so the \<^verbatim>\<open>len()\<close> of a log
  statement raises only where the comprehension before it has raised already.
\<close>

lemma iterate_has_len: "iterate v = Inr xs \<Longrightarrow> py_len v = Inr (length xs)"
  by (cases v) auto

lemma py_len_iterate:
  "py_len v =
     (case iterate v of
        Inr xs \<Rightarrow> Inr (length xs)
      | Inl e \<Rightarrow> Inl (Exn ''TypeError'' ''object has no len(): '' v))"
  by (cases v) auto

text \<open>One iteration: a page that is appended, and the three ways of leaving the loop.\<close>

lemma walk_pages_success_step:
  assumes "page_count < max_pages" "continues response sc i" "page_items sc i = Some users"
  shows "walk_pages max_pages sc response page_count all_results i h =
         walk_pages max_pages sc response (page_count + 1)
           (all_results @ filter valid_item users) (i + 1) (h + 1)"
  using assms
  by (subst walk_pages.simps)
     (auto simp: continues_def page_items_def py_len_iterate
        split: outcome.splits sum.splits if_splits)

lemma walk_pages_budget_stop:
  assumes "\<not> page_count < max_pages"
  shows "walk_pages max_pages sc response page_count all_results i h =
         \<lparr>exit_page_count = page_count, exit_results = all_results,
          exit_raised = None, exit_fetches = i, exit_probes = h\<rparr>"
  using assms by (subst walk_pages.simps) simp

lemma walk_pages_no_more_stop:
  assumes "\<not> continues response sc i"
  shows "exit_page_count (walk_pages max_pages sc response page_count all_results i h) = page_count"
    and "exit_results (walk_pages max_pages sc response page_count all_results i h) = all_results"
    and "exit_fetches (walk_pages max_pages sc response page_count all_results i h) = i"
    and "exit_probes (walk_pages max_pages sc response page_count all_results i h) \<le> h + 1"
    and "h \<le> exit_probes (walk_pages max_pages sc response page_count all_results i h)"
  using assms
  by (subst walk_pages.simps; auto simp: continues_def split: outcome.splits)+

lemma walk_pages_bad_page_stop:
  assumes "page_count < max_pages" "continues response sc i" "page_items sc i = None"
  shows "exit_page_count (walk_pages max_pages sc response page_count all_results i h) = page_count + 1"
    and "exit_results (walk_pages max_pages sc response page_count all_results i h) = all_results"
    and "exit_fetches (walk_pages max_pages sc response page_count all_results i h) = i + 1"
    and "exit_probes (walk_pages max_pages sc response page_count all_results i h) = h + 1"
  using assms
  by (subst walk_pages.simps;
      auto simp: continues_def page_items_def py_len_iterate
        split: outcome.splits sum.splits if_splits)+

text \<open>
  How the loop is left, whatever the cursor does: the fetches made, the page count, the
  items accumulated, and why no further fetch was made.
\<close>

lemma walk_pages_exit:
  fixes max_pages :: int and sc :: cursor and response :: pyval
  defines "ex \<equiv> \<lambda>page_count all_results i h. walk_pages max_pages sc response page_count all_results i h"
  shows "i \<le> exit_fetches (ex page_count all_results i h) \<and>
         exit_page_count (ex page_count all_results i h) =
           page_count + int (exit_fetches (ex page_count all_results i h) - i) \<and>
         exit_page_count (ex page_count all_results i h) \<le> max page_count max_pages \<and>
         (\<forall>j. i \<le> j \<and> j < exit_fetches (ex page_count all_results i h) \<longrightarrow> continues response sc j) \<and>
         (\<forall>j. i \<le> j \<and> Suc j < exit_fetches (ex page_count all_results i h) \<longrightarrow> page_items sc j \<noteq> None) \<and>
         (max_pages \<le> exit_page_count (ex page_count all_results i h) \<or>
          \<not> continues response sc (exit_fetches (ex page_count all_results i h)) \<or>
          (i < exit_fetches (ex page_count all_results i h) \<and>
           page_items sc (exit_fetches (ex page_count all_results i h) - 1) = None)) \<and>
         exit_results (ex page_count all_results i h) =
           all_results @ concat (map (page_valid_items sc) [i..<exit_fetches (ex page_count all_results i h)]) \<and>
         h \<le> exit_probes (ex page_count all_results i h) \<and>
         exit_probes (ex page_count all_results i h) \<le>
           h + (exit_fetches (ex page_count all_results i h) - i) + 1"
proof (induction "nat (max_pages - page_count)" arbitrary: page_count all_results i h)
  case 0
  then have "\<not> page_count < max_pages" by simp
  then show ?case by (auto simp: ex_def walk_pages_budget_stop)
next
  case (Suc d)
  then have lt: "page_count < max_pages" by simp
  show ?case
  proof (cases "continues response sc i")
    case False
    then show ?thesis
      using walk_pages_no_more_stop[OF False, where max_pages = max_pages and page_count = page_count
            and all_results = all_results and h = h]
      by (auto simp: ex_def)
  next
    case c: True
    show ?thesis
    proof (cases "page_items sc i")
      case None
      show ?thesis
        using walk_pages_bad_page_stop[OF lt c None, where all_results = all_results and h = h] lt c None
        by (auto simp: ex_def page_valid_items_def less_Suc_eq_le)
    next
      case (Some users)
      define e where "e = ex (page_count + 1) (all_results @ filter valid_item users) (i + 1) (h + 1)"
      define m where "m = exit_fetches e"
      have eq: "ex page_count all_results i h = e"
        unfolding ex_def e_def by (rule walk_pages_success_step[OF lt c Some])
      have d: "d = nat (max_pages - (page_count + 1))" using Suc.hyps(2) by simp
      have ih: "i + 1 \<le> m \<and>
         exit_page_count e = page_count + 1 + int (m - (i + 1)) \<and>
         exit_page_count e \<le> max (page_count + 1) max_pages \<and>
         (\<forall>j. i + 1 \<le> j \<and> j < m \<longrightarrow> continues response sc j) \<and>
         (\<forall>j. i + 1 \<le> j \<and> Suc j < m \<longrightarrow> page_items sc j \<noteq> None) \<and>
         (max_pages \<le> exit_page_count e \<or> \<not> continues response sc m \<or>
          (i + 1 < m \<and> page_items sc (m - 1) = None)) \<and>
         exit_results e =
           (all_results @ filter valid_item users) @ concat (map (page_valid_items sc) [i + 1..<m]) \<and>
         h + 1 \<le> exit_probes e \<and>
         exit_probes e \<le> h + 1 + (m - (i + 1)) + 1"
        unfolding m_def e_def by (rule Suc.hyps(1)[OF d])
      from ih have le: "i + 1 \<le> m" by blast
      then have upt: "[i..<m] = i # [i + 1..<m]" by (simp add: upt_conv_Cons)
      from ih have "exit_page_count e = page_count + 1 + int (m - (i + 1))" by blast
      with le have cnt: "exit_page_count e = page_count + int (m - i)" by simp
      from ih have "exit_page_count e \<le> max (page_count + 1) max_pages" by blast
      with lt have bound: "exit_page_count e \<le> max page_count max_pages" by simp
      have cont: "\<forall>j. i \<le> j \<and> j < m \<longrightarrow> continues response sc j"
      proof (intro allI impI)
        fix j assume j: "i \<le> j \<and> j < m"
        from ih have "\<forall>j. i + 1 \<le> j \<and> j < m \<longrightarrow> continues response sc j" by blast
        with j c show "continues response sc j" by (cases "j = i") auto
      qed
      have ok: "\<forall>j. i \<le> j \<and> Suc j < m \<longrightarrow> page_items sc j \<noteq> None"
      proof (intro allI impI)
        fix j assume j: "i \<le> j \<and> Suc j < m"
        from ih have "\<forall>j. i + 1 \<le> j \<and> Suc j < m \<longrightarrow> page_items sc j \<noteq> None" by blast
        with j Some show "page_items sc j \<noteq> None" by (cases "j = i") auto
      qed
      from ih have "max_pages \<le> exit_page_count e \<or> \<not> continues response sc m \<or>
          (i + 1 < m \<and> page_items sc (m - 1) = None)" by blast
      then have stop: "max_pages \<le> exit_page_count e \<or> \<not> continues response sc m \<or>
            (i < m \<and> page_items sc (m - 1) = None)" by auto
      from ih have "exit_results e =
           (all_results @ filter valid_item users) @ concat (map (page_valid_items sc) [i + 1..<m])"
        by blast
      then have res: "exit_results e = all_results @ concat (map (page_valid_items sc) [i..<m])"
        using upt Some by (simp add: page_valid_items_def)
      from ih have "h + 1 \<le> exit_probes e \<and> exit_probes e \<le> h + 1 + (m - (i + 1)) + 1" by blast
      with le have pr: "h \<le> exit_probes e \<and> exit_probes e \<le> h + (m - i) + 1" by linarith
      from le have le': "i \<le> m" by simp
      show ?thesis
        unfolding eq m_def[symmetric] using le' cnt bound cont ok stop res pr by blast
    qed
  qed
qed

lemma walk_pages_failure_step:
  assumes "page_count < max_pages" "continues response sc i" "page_fails sc i"
  shows "walk_pages max_pages sc response page_count all_results i h =
         \<lparr>exit_page_count = page_count + 1, exit_results = all_results,
          exit_raised = None, exit_fetches = i + 1, exit_probes = h + 1\<rparr>"
  using assms
  by (subst walk_pages.simps)
     (auto simp: continues_def page_fails_def split: outcome.splits sum.splits if_splits)

lemma page_fails_no_items: "page_fails sc i \<Longrightarrow> page_items sc i = None"
  by (auto simp: page_fails_def page_items_def split: outcome.splits sum.splits)

text \<open>Successful fetches up to iteration \<open>n\<close>, whose fetch returns an error.\<close>

lemma walk_pages_until_failure:
  assumes "\<And>j. i \<le> j \<Longrightarrow> j < n \<Longrightarrow> continues response sc j \<and> page_items sc j \<noteq> None"
    and "continues response sc n" and "page_fails sc n"
    and "page_count + int (n - i) < max_pages" and "i \<le> n"
  shows "walk_pages max_pages sc response page_count all_results i h =
         \<lparr>exit_page_count = page_count + int (n - i) + 1,
          exit_results = all_results @ concat (map (page_valid_items sc) [i..<n]),
          exit_raised = None, exit_fetches = n + 1, exit_probes = h + (n - i) + 1\<rparr>"
  using assms
proof (induction "n - i" arbitrary: i page_count all_results h)
  case 0
  then have "i = n" by simp
  with 0 show ?case by (simp add: walk_pages_failure_step)
next
  case (Suc d)
  then have lt: "i < n" by simp
  from Suc.prems(1)[of i] lt obtain users
    where c: "continues response sc i" and u: "page_items sc i = Some users" by auto
  have step: "walk_pages max_pages sc response page_count all_results i h =
        walk_pages max_pages sc response (page_count + 1)
           (all_results @ filter valid_item users) (i + 1) (h + 1)"
    using Suc.prems(4) c u by (intro walk_pages_success_step) auto
  have "walk_pages max_pages sc response (page_count + 1)
           (all_results @ filter valid_item users) (i + 1) (h + 1) =
        \<lparr>exit_page_count = (page_count + 1) + int (n - (i + 1)) + 1,
          exit_results = (all_results @ filter valid_item users) @ concat (map (page_valid_items sc) [i + 1..<n]),
          exit_raised = None, exit_fetches = n + 1, exit_probes = (h + 1) + (n - (i + 1)) + 1\<rparr>"
  proof (rule Suc.hyps(1))
    show "d = n - (i + 1)" using Suc.hyps(2) by simp
    show "\<And>j. i + 1 \<le> j \<Longrightarrow> j < n \<Longrightarrow> continues response sc j \<and> page_items sc j \<noteq> None"
      using Suc.prems(1) by simp
    show "continues response sc n" "page_fails sc n" by fact+
    show "page_count + 1 + int (n - (i + 1)) < max_pages" using Suc.prems(4) lt by simp
    show "i + 1 \<le> n" using lt by simp
  qed
  moreover have "[i..<n] = i # [i + 1..<n]" using lt by (simp add: upt_conv_Cons)
  moreover have "int (n - i) = int (n - (i + 1)) + 1" using lt by simp
  moreover have "n - i = n - (i + 1) + 1" using lt by simp
  ultimately show ?case using step u by (simp add: page_valid_items_def)
qed

text \<open>
  The exceptions raised by the walker's own iteration and unpacking are instances of
  \<^verbatim>\<open>Exception\<close>; so is whatever leaves the loop, if the cursor raises nothing else.
\<close>

lemma iterate_raises_Exception: "iterate v = Inl e \<Longrightarrow> is_Exception e"
  by (cases v) auto

lemma unpack2_raises_Exception: "unpack2 v = Inl e \<Longrightarrow> is_Exception e"
  by (auto simp: unpack2_def
      split: sum.splits list.splits dest: iterate_raises_Exception)

lemma walk_pages_raised:
  assumes "raises_only_Exceptions sc"
  shows "exit_raised (walk_pages max_pages sc response page_count all_results i h) = Some e
         \<Longrightarrow> is_Exception e"
proof (induction "nat (max_pages - page_count)" arbitrary: page_count all_results i h)
  case 0
  then have "\<not> page_count < max_pages" by simp
  with 0 show ?case by (simp add: walk_pages_budget_stop)
next
  case (Suc d)
  then have lt: "page_count < max_pages" by simp
  show ?case
  proof (cases "continues response sc i \<and> page_items sc i \<noteq> None")
    case True
    then obtain users where c: "continues response sc i" and u: "page_items sc i = Some users"
      by auto
    have d: "d = nat (max_pages - (page_count + 1))" using Suc.hyps(2) by simp
    from Suc.prems show ?thesis
      unfolding walk_pages_success_step[OF lt c u] by (rule Suc.hyps(1)[OF d])
  next
    case False
    from Suc.prems False lt assms show ?thesis
      by (subst (asm) walk_pages.simps)
         (auto simp: continues_def page_items_def raises_only_Exceptions_def py_len_iterate
            split: if_splits outcome.splits sum.splits
            dest: iterate_raises_Exception unpack2_raises_Exception)
  qed
qed

section \<open>What the normaliser returns and when it raises\<close>




text \<open>
  Claim C7, as stated, fails: the source returns a bare object itself as the first
  component, where the specification's case definition wraps it in a one-element list.
\<close>

theorem normalize_bare_counterexample:
  "normalize_okta_response (PObj [(''id'', PInt 1)]) = PTuple [PObj [(''id'', PInt 1)], PNone, PNone] \<and>
   normalize_spec (PObj [(''id'', PInt 1)]) = PTuple [PList [PObj [(''id'', PInt 1)]], PNone, PNone] \<and>
   normalize_okta_response (PObj [(''id'', PInt 1)]) \<noteq> normalize_spec (PObj [(''id'', PInt 1)])"
  by (simp add: normalize_okta_response_def normalize_spec_def getattr_default_def)

text \<open>
  Claim C7, amended. A 3-tuple is returned as it is; a 2-tuple \<open>(items, cursor)\<close>
  becomes \<open>(items, cursor, None)\<close>; a tuple of any other length becomes
  \<open>(None, None, ValueError)\<close>, the message of the error being formatted from the whole
  response; a value that is not a tuple becomes \<open>(value, cursor, None)\<close> with the value
  itself, not wrapped in a list, as first component and its \<^verbatim>\<open>response\<close> attribute, or
  \<^verbatim>\<open>None\<close> when it has none, as cursor.
\<close>

theorem normalize_cases:
  "normalize_okta_response v =
     (case v of
        PTuple [items, cursor, error] \<Rightarrow> PTuple [items, cursor, error]
      | PTuple [items, cursor] \<Rightarrow> PTuple [items, cursor, PNone]
      | PTuple xs \<Rightarrow> PTuple [PNone, PNone, PExc (Exn ''ValueError'' ''Unexpected response format: '' (PTuple xs))]
      | _ \<Rightarrow> PTuple [v, (case py_getattr v ''response'' of Some c \<Rightarrow> c | None \<Rightarrow> PNone), PNone])"
  by (simp add: normalize_okta_response_def getattr_default_def split: pyval.splits list.splits)

section \<open>Page count and budget of a walk\<close>

text \<open>
  Claim C10. Every 4-tuple that \<^verbatim>\<open>paginate_okta_response\<close> returns has a page count of
  at least one: the early return on an initial error reports one page, and the loop
  starts counting at one and only increments.
\<close>

theorem page_count_at_least_one:
  assumes "returned (paginate_okta_response max_pages sc initial_results initial_resp initial_err) = Inr r"
  shows "1 \<le> ret_page_count r"
proof (cases "truthy initial_err")
  case True
  with assms show ?thesis by (auto simp: paginate_okta_response_def)
next
  case False
  show ?thesis
  proof (cases "iterate initial_results")
    case (Inl e)
    with False assms show ?thesis by (simp add: paginate_okta_response_def)
  next
    case (Inr items)
    define ex where "ex = walk_pages max_pages sc initial_resp 1 (filter valid_item items) 0 0"
    have "exit_page_count ex = 1 + int (exit_fetches ex - 0)"
      unfolding ex_def using walk_pages_exit[where max_pages = max_pages and sc = sc and response = initial_resp
          and page_count = 1 and all_results = "filter valid_item items" and i = 0 and h = 0]
      by blast
    then have "1 \<le> exit_page_count ex" by simp
    moreover have "ret_page_count r = exit_page_count ex"
      using assms False Inr
      by (auto simp: paginate_okta_response_def py_len_iterate Let_def ex_def
          split: option.splits if_splits)
    ultimately show ?thesis by simp
  qed
qed

theorem page_count_at_least_one_witness:
  "returned (paginate_okta_response 3 endless PNone okta_response page_error) =
     Inr \<lparr>ret_results = PNone, ret_response = okta_response, ret_error = page_error,
          ret_page_count = 1\<rparr> \<and>
   (1::int) \<le> ret_page_count \<lparr>ret_results = PNone, ret_response = okta_response,
                              ret_error = page_error, ret_page_count = 1\<rparr>"
proof -
  have r: "returned (paginate_okta_response 3 endless PNone okta_response page_error) =
     Inr \<lparr>ret_results = PNone, ret_response = okta_response, ret_error = page_error,
          ret_page_count = 1\<rparr>"
    by (simp add: paginate_okta_response_def page_error_def)
  from r page_count_at_least_one[OF r] show ?thesis by blast
qed

text \<open>
  Claim C5. \<open>walk_pages\<close> is a total function (its termination is proved from the page
  budget alone), so the walk ends for every cursor, also for one that never runs out of
  pages. For a positive \<^verbatim>\<open>max_pages\<close> the number \<open>n\<close> of \<^verbatim>\<open>next()\<close> calls is at most
  \<^verbatim>\<open>max_pages\<close> (and in fact smaller); every fetch was preceded by a true \<^verbatim>\<open>has_next()\<close>; every fetch but
  the last one succeeded; and the walk stopped at the first of: the budget is used up
  (\<open>n + 1 = max_pages\<close>, the initial page counting against it), the loop condition
  fails, the last fetch failed, or the walk never entered the loop because the initial
  response carried an error or its items could not be iterated.
\<close>

theorem walk_stops_within_budget:
  fixes max_pages :: int and sc :: cursor and initial_results response initial_err :: pyval
  defines "n \<equiv> next_calls (paginate_okta_response max_pages sc initial_results response initial_err)"
  assumes pos: "0 < max_pages"
  shows "int n \<le> max_pages \<and> int n < max_pages \<and>
         (\<forall>j<n. continues response sc j) \<and>
         (\<forall>j. Suc j < n \<longrightarrow> page_items sc j \<noteq> None) \<and>
         (int n + 1 = max_pages \<or> \<not> continues response sc n \<or>
          (0 < n \<and> page_items sc (n - 1) = None) \<or>
          truthy initial_err \<or> (\<exists>e. iterate initial_results = Inl e))"
proof (cases "truthy initial_err")
  case True
  then have "n = 0" by (simp add: n_def paginate_okta_response_def)
  with True pos show ?thesis by simp
next
  case False
  show ?thesis
  proof (cases "iterate initial_results")
    case (Inl e)
    with False have "n = 0" by (simp add: n_def paginate_okta_response_def)
    with Inl pos show ?thesis by simp
  next
    case (Inr items)
    define ex where "ex = walk_pages max_pages sc response 1 (filter valid_item items) 0 0"
    have n: "n = exit_fetches ex"
      using False Inr by (simp add: n_def paginate_okta_response_def py_len_iterate Let_def ex_def)
    note x = walk_pages_exit[where max_pages = max_pages and sc = sc and response = response
        and page_count = 1 and all_results = "filter valid_item items" and i = 0 and h = 0,
        folded ex_def, folded n]
    from x have cnt: "exit_page_count ex = 1 + int (n - 0)" by blast
    from x have "exit_page_count ex \<le> max 1 max_pages" by blast
    with pos cnt have bound: "int n + 1 \<le> max_pages" by simp
    from x have cont: "\<forall>j. 0 \<le> j \<and> j < n \<longrightarrow> continues response sc j" by blast
    from x have ok: "\<forall>j. 0 \<le> j \<and> Suc j < n \<longrightarrow> page_items sc j \<noteq> None" by blast
    from x have "max_pages \<le> exit_page_count ex \<or> \<not> continues response sc n \<or>
          (0 < n \<and> page_items sc (n - 1) = None)" by blast
    with cnt bound have stop: "int n + 1 = max_pages \<or> \<not> continues response sc n \<or>
          (0 < n \<and> page_items sc (n - 1) = None)" by auto
    from bound have b: "int n \<le> max_pages \<and> int n < max_pages" by simp
    from cont have c: "\<forall>j<n. continues response sc j" by simp
    from ok have o: "\<forall>j. Suc j < n \<longrightarrow> page_items sc j \<noteq> None" by simp
    from b c o stop show ?thesis by blast
  qed
qed

theorem walk_stops_within_budget_witness:
  "(0::int) < 3 \<and>
   next_calls (paginate_okta_response 3 endless (PList []) okta_response PNone) = 2 \<and>
   int (next_calls (paginate_okta_response 3 endless (PList []) okta_response PNone)) \<le> 3"
proof -
  have v: "next_calls (paginate_okta_response 3 endless (PList []) okta_response PNone) = 2"
    by code_simp
  have p: "(0::int) < 3" by simp
  from walk_stops_within_budget[OF p, where sc = endless and initial_results = "PList []"
      and response = okta_response and initial_err = PNone]
  have "int (next_calls (paginate_okta_response 3 endless (PList []) okta_response PNone)) \<le> 3"
    by blast
  with v p show ?thesis by blast
qed

section \<open>Errors and empty pages during a walk\<close>

text \<open>
  Claim C4, as stated, fails: a walk whose initial response carries an error does not
  report zero pages. The early return reports a page count of one.
\<close>

theorem initial_error_counterexample:
  "paginate_okta_response 3 endless PNone okta_response page_error =
     \<lparr>returned = Inr \<lparr>ret_results = PNone, ret_response = okta_response,
                       ret_error = page_error, ret_page_count = 1\<rparr>,
      next_calls = 0, has_next_calls = 0\<rparr> \<and>
   returned (paginate_okta_response 3 endless PNone okta_response page_error) \<noteq>
     Inr \<lparr>ret_results = PNone, ret_response = okta_response,
          ret_error = page_error, ret_page_count = 0\<rparr>"
  by (simp add: paginate_okta_response_def page_error_def)

text \<open>
  Claim C4, amended. When the initial error is truthy (as every error object is), the
  walk returns at once: the three arguments are passed through unchanged, the page
  count is one, and neither \<^verbatim>\<open>has_next()\<close> nor \<^verbatim>\<open>next()\<close> is called.
\<close>

theorem initial_error_returns_at_once:
  assumes "truthy initial_err"
  shows "paginate_okta_response max_pages sc initial_results initial_resp initial_err =
     \<lparr>returned = Inr \<lparr>ret_results = initial_results, ret_response = initial_resp,
                       ret_error = initial_err, ret_page_count = 1\<rparr>,
      next_calls = 0, has_next_calls = 0\<rparr>"
  using assms by (simp add: paginate_okta_response_def)

theorem initial_error_returns_at_once_witness:
  "truthy page_error \<and>
   paginate_okta_response 5 endless PNone okta_response page_error =
     \<lparr>returned = Inr \<lparr>ret_results = PNone, ret_response = okta_response,
                       ret_error = page_error, ret_page_count = 1\<rparr>,
      next_calls = 0, has_next_calls = 0\<rparr>"
proof -
  have t: "truthy page_error" by (simp add: page_error_def)
  from initial_error_returns_at_once[OF t] t show ?thesis by blast
qed

text \<open>
  Claim C1, as stated, fails on the scenario of the specification (budget of three
  pages, five pages of ten items, the third one failing): twenty items are returned,
  but the page count is three, the failed fetch being counted, and the error component
  is \<^verbatim>\<open>None\<close>, the page error being logged only.
\<close>

theorem third_page_fails_counterexample:
  "paginate_okta_response 3 five_pages_third_fails (PList (ten_items 1)) okta_response PNone =
     \<lparr>returned = Inr \<lparr>ret_results = PList (ten_items 1 @ ten_items 2),
                       ret_response = okta_response, ret_error = PNone, ret_page_count = 3\<rparr>,
      next_calls = 2, has_next_calls = 2\<rparr> \<and>
   length (ten_items 1 @ ten_items 2) = 20 \<and>
   returned (paginate_okta_response 3 five_pages_third_fails (PList (ten_items 1)) okta_response PNone) \<noteq>
     Inr \<lparr>ret_results = PList (ten_items 1 @ ten_items 2),
          ret_response = okta_response, ret_error = page_error, ret_page_count = 2\<rparr>"
  by code_simp

text \<open>
  Claim C1, amended. Let pages \<open>2\<close>, ..., \<open>k - 1\<close> be fetched successfully and let the
  fetch of page \<open>k \<le> max_pages\<close> return a truthy error (here \<open>k = n + 2\<close>, the fetch
  of iteration \<open>n\<close>). Then the walk stops there, with \<open>k - 1\<close> calls of \<^verbatim>\<open>next()\<close>;
  the result holds exactly the valid items of pages \<open>1\<close>, ..., \<open>k - 1\<close>; the page
  count is \<open>k\<close>; and the error component is \<^verbatim>\<open>None\<close>.
\<close>

theorem partial_results_on_page_error:
  assumes "\<not> truthy initial_err"
    and "iterate initial_results = Inr items"
    and "\<forall>j<n. continues response sc j \<and> page_items sc j \<noteq> None"
    and "continues response sc n"
    and "page_fails sc n"
    and "int n + 2 \<le> max_pages"
  shows "paginate_okta_response max_pages sc initial_results response initial_err =
     \<lparr>returned = Inr \<lparr>ret_results = PList (filter valid_item items @ fetched_items sc n),
                       ret_response = response, ret_error = PNone,
                       ret_page_count = int n + 2\<rparr>,
      next_calls = n + 1, has_next_calls = n + 1\<rparr>"
proof -
  have "walk_pages max_pages sc response 1 (filter valid_item items) 0 0 =
         \<lparr>exit_page_count = 1 + int (n - 0) + 1,
          exit_results = filter valid_item items @ concat (map (page_valid_items sc) [0..<n]),
          exit_raised = None, exit_fetches = n + 1, exit_probes = 0 + (n - 0) + 1\<rparr>"
    using assms by (intro walk_pages_until_failure) auto
  with assms(1,2) show ?thesis
    by (simp add: paginate_okta_response_def py_len_iterate fetched_items_def)
qed

theorem partial_results_on_page_error_witness:
  "\<not> truthy PNone \<and> iterate (PList (ten_items 1)) = Inr (ten_items 1) \<and>
   continues okta_response five_pages_third_fails 0 \<and>
   page_items five_pages_third_fails 0 = Some (ten_items 2) \<and>
   continues okta_response five_pages_third_fails 1 \<and>
   page_fails five_pages_third_fails 1 \<and>
   int 1 + 2 \<le> (3::int) \<and>
   paginate_okta_response 3 five_pages_third_fails (PList (ten_items 1)) okta_response PNone =
     \<lparr>returned = Inr \<lparr>ret_results =
                         PList (filter valid_item (ten_items 1) @ fetched_items five_pages_third_fails 1),
                       ret_response = okta_response, ret_error = PNone,
                       ret_page_count = int 1 + 2\<rparr>,
      next_calls = 1 + 1, has_next_calls = 1 + 1\<rparr>"
proof -
  have h1: "\<not> truthy PNone" by simp
  have h2: "iterate (PList (ten_items 1)) = Inr (ten_items 1)" by simp
  have h3: "\<forall>j<1. continues okta_response five_pages_third_fails j \<and>
           page_items five_pages_third_fails j \<noteq> None"
    by (simp add: continues_def page_items_def five_pages_third_fails_def okta_response_def
        hasattr_def unpack2_def)
  have h4: "continues okta_response five_pages_third_fails 1"
    by (simp add: continues_def five_pages_third_fails_def okta_response_def hasattr_def)
  have h5: "page_fails five_pages_third_fails 1"
    by (simp add: page_fails_def five_pages_third_fails_def unpack2_def page_error_def)
  have h6: "int 1 + 2 \<le> (3::int)" by simp
  have c0: "continues okta_response five_pages_third_fails 0"
    by (simp add: continues_def five_pages_third_fails_def okta_response_def hasattr_def)
  have p0: "page_items five_pages_third_fails 0 = Some (ten_items 2)"
    by (simp add: page_items_def five_pages_third_fails_def unpack2_def numeral_2_eq_2)
  from partial_results_on_page_error[OF h1 h2 h3 h4 h5 h6] h1 h2 c0 p0 h4 h5 h6
  show ?thesis by blast
qed

text \<open>
  Claim C9, as stated, fails: after a page without items the walker goes on. With a
  budget of three pages, an empty page 2 and a page 3 of one item, it calls
  \<^verbatim>\<open>next()\<close> twice and returns the item of page 3.
\<close>

theorem empty_page_counterexample:
  "page_items empty_second_page 0 = Some [] \<and>
   continues okta_response empty_second_page 1 \<and>
   paginate_okta_response 3 empty_second_page (PList [okta_item 1]) okta_response PNone =
     \<lparr>returned = Inr \<lparr>ret_results = PList [okta_item 1, okta_item 7],
                       ret_response = okta_response, ret_error = PNone, ret_page_count = 3\<rparr>,
      next_calls = 2, has_next_calls = 2\<rparr> \<and>
   next_calls (paginate_okta_response 3 empty_second_page (PList [okta_item 1]) okta_response PNone) \<noteq> 1"
  by code_simp

text \<open>
  Claim C9, amended. A fetched page that holds no items and no error does not stop the
  walk: when the budget is not used up and \<^verbatim>\<open>has_next()\<close> is true again, the next page
  is fetched as well.
\<close>

theorem empty_page_does_not_stop:
  assumes "\<not> truthy initial_err"
    and "iterate initial_results = Inr items"
    and "\<forall>j<n. continues response sc j \<and> page_items sc j \<noteq> None"
    and "continues response sc n"
    and "page_items sc n = Some []"
    and "int n + 2 < max_pages"
    and "continues response sc (n + 1)"
  shows "n + 2 \<le> next_calls (paginate_okta_response max_pages sc initial_results response initial_err)"
proof -
  define ex where "ex = walk_pages max_pages sc response 1 (filter valid_item items) 0 0"
  define m where "m = exit_fetches ex"
  have nc: "next_calls (paginate_okta_response max_pages sc initial_results response initial_err) = m"
    using assms(1,2) by (simp add: paginate_okta_response_def py_len_iterate Let_def ex_def m_def)
  note x = walk_pages_exit[where max_pages = max_pages and sc = sc and response = response
        and page_count = 1 and all_results = "filter valid_item items" and i = 0 and h = 0,
        folded ex_def, folded m_def]
  from x have cnt: "exit_page_count ex = 1 + int (m - 0)" by blast
  from x have stop: "max_pages \<le> exit_page_count ex \<or> \<not> continues response sc m \<or>
          (0 < m \<and> page_items sc (m - 1) = None)" by blast
  have all_c: "\<And>j. j \<le> n + 1 \<Longrightarrow> continues response sc j"
  proof -
    fix j assume "j \<le> n + 1"
    then consider "j < n" | "j = n" | "j = n + 1" by linarith
    then show "continues response sc j" using assms(3,4,7) by cases auto
  qed
  have all_ok: "\<And>j. j \<le> n \<Longrightarrow> page_items sc j \<noteq> None"
  proof -
    fix j assume "j \<le> n"
    then consider "j < n" | "j = n" by linarith
    then show "page_items sc j \<noteq> None" using assms(3,5) by cases auto
  qed
  have "\<not> m < n + 2"
  proof
    assume lt: "m < n + 2"
    then have "m \<le> n + 1" by simp
    then have c: "continues response sc m" by (rule all_c)
    from lt cnt assms(6) have b: "\<not> max_pages \<le> exit_page_count ex" by simp
    have "\<not> (0 < m \<and> page_items sc (m - 1) = None)"
    proof
      assume a: "0 < m \<and> page_items sc (m - 1) = None"
      with lt have "m - 1 \<le> n" by simp
      from all_ok[OF this] a show False by simp
    qed
    with stop c b show False by blast
  qed
  with nc show ?thesis by simp
qed

theorem empty_page_does_not_stop_witness:
  "\<not> truthy PNone \<and> iterate (PList [okta_item 1]) = Inr [okta_item 1] \<and>
   continues okta_response empty_second_page 0 \<and>
   page_items empty_second_page 0 = Some [] \<and>
   int 0 + 2 < (3::int) \<and>
   continues okta_response empty_second_page (0 + 1) \<and>
   0 + 2 \<le> next_calls (paginate_okta_response 3 empty_second_page (PList [okta_item 1]) okta_response PNone)"
proof -
  have h1: "\<not> truthy PNone" by simp
  have h2: "iterate (PList [okta_item 1]) = Inr [okta_item 1]" by simp
  have h3: "\<forall>j<0. continues okta_response empty_second_page j \<and> page_items empty_second_page j \<noteq> None"
    by simp
  have h4: "continues okta_response empty_second_page 0"
    by (simp add: continues_def empty_second_page_def okta_response_def hasattr_def)
  have h5: "page_items empty_second_page 0 = Some []"
    by (simp add: page_items_def empty_second_page_def unpack2_def)
  have h6: "int 0 + 2 < (3::int)" by simp
  have h7: "continues okta_response empty_second_page (0 + 1)"
    by (simp add: continues_def empty_second_page_def okta_response_def hasattr_def)
  from empty_page_does_not_stop[OF h1 h2 h3 h4 h5 h6 h7] h1 h2 h4 h5 h6 h7
  show ?thesis by blast
qed

text \<open>
  Claim C8, as stated, fails in two ways. The walker, given the three nulls that the
  normaliser makes of a null upstream response, does not return: its first
  comprehension iterates over \<^verbatim>\<open>None\<close> outside the \<^verbatim>\<open>try\<close> block and the
  \<^verbatim>\<open>TypeError\<close> leaves the function. And an exception raised inside the \<^verbatim>\<open>try\<close>
  block that is not an instance of \<^verbatim>\<open>Exception\<close> leaves the function as well.
\<close>

theorem walk_crash_counterexample:
  "paginate_okta_response 3 endless PNone PNone PNone =
     \<lparr>returned = Inl (Exn ''TypeError'' ''object is not iterable: '' PNone),
      next_calls = 0, has_next_calls = 0\<rparr> \<and>
   paginate_okta_response 3 cancelled_fetch (PList [okta_item 1]) okta_response PNone =
     \<lparr>returned = Inl (BaseExn ''CancelledError'' [] PNone),
      next_calls = 1, has_next_calls = 1\<rparr>"
  by code_simp

text \<open>
  Claim C8, amended. When the initial error is truthy, or the initial items are a
  list, a tuple or a string, and \<^verbatim>\<open>has_next()\<close> and \<^verbatim>\<open>next()\<close> raise instances of
  \<^verbatim>\<open>Exception\<close> only (whose \<^verbatim>\<open>str()\<close> returns, as it does for every exception of
  the model), the walk returns a 4-tuple whatever else the cursor does. Without
  an initial error the tuple holds the valid items of the initial page and of every
  page fetched successfully, a null error, and a page count of one plus the number of
  \<^verbatim>\<open>next()\<close> calls made: a page that is malformed, carries an error or raises adds
  nothing and ends the walk. The values are those of the model, on which a truth test,
  an attribute read and the formatting of the log statements return.
\<close>

theorem walk_returns_normally:
  fixes max_pages :: int and sc :: cursor and initial_results response initial_err :: pyval
  defines "w \<equiv> paginate_okta_response max_pages sc initial_results response initial_err"
  assumes "truthy initial_err \<or> iterate initial_results = Inr items"
    and "raises_only_Exceptions sc"
  shows "\<exists>r. returned w = Inr r \<and>
           (\<not> truthy initial_err \<longrightarrow>
              ret_results r = PList (filter valid_item items @ fetched_items sc (next_calls w)) \<and>
              ret_response r = response \<and> ret_error r = PNone \<and>
              ret_page_count r = 1 + int (next_calls w) \<and>
              (\<forall>j. Suc j < next_calls w \<longrightarrow> page_items sc j \<noteq> None))"
proof (cases "truthy initial_err")
  case True
  then show ?thesis by (simp add: w_def paginate_okta_response_def)
next
  case False
  with assms(2) have it: "iterate initial_results = Inr items" by simp
  define ex where "ex = walk_pages max_pages sc response 1 (filter valid_item items) 0 0"
  define r where "r = \<lparr>ret_results = PList (exit_results ex), ret_response = response,
                         ret_error = PNone, ret_page_count = exit_page_count ex\<rparr>"
  have n: "next_calls w = exit_fetches ex"
    using False it by (simp add: w_def paginate_okta_response_def py_len_iterate Let_def ex_def)
  have "exit_raised ex = None \<or> (\<exists>e. exit_raised ex = Some e \<and> is_Exception e)"
    using walk_pages_raised[OF assms(3), of max_pages response 1 "filter valid_item items" 0 0]
    by (cases "exit_raised ex") (auto simp: ex_def)
  then have ret: "returned w = Inr r"
    using False it
    by (auto simp: w_def paginate_okta_response_def py_len_iterate Let_def ex_def r_def)
  note x = walk_pages_exit[where max_pages = max_pages and sc = sc and response = response
        and page_count = 1 and all_results = "filter valid_item items" and i = 0 and h = 0,
        folded ex_def]
  from x have cnt: "exit_page_count ex = 1 + int (exit_fetches ex - 0)" by blast
  from x have res: "exit_results ex =
      filter valid_item items @ concat (map (page_valid_items sc) [0..<exit_fetches ex])" by blast
  from x have "\<forall>j. 0 \<le> j \<and> Suc j < exit_fetches ex \<longrightarrow> page_items sc j \<noteq> None" by blast
  then have ok: "\<forall>j. Suc j < next_calls w \<longrightarrow> page_items sc j \<noteq> None" using n by simp
  have "ret_results r = PList (filter valid_item items @ fetched_items sc (next_calls w)) \<and>
        ret_response r = response \<and> ret_error r = PNone \<and>
        ret_page_count r = 1 + int (next_calls w)"
    using cnt res n by (simp add: r_def fetched_items_def)
  with ret ok show ?thesis by blast
qed

theorem walk_returns_normally_witness:
  "iterate (PList [okta_item 9]) = Inr [okta_item 9] \<and>
   is_Exception (Exn ''RuntimeError'' ''connection reset'' PNone) \<and>
   returned (paginate_okta_response 5 broken_second_fetch (PList [okta_item 9]) okta_response PNone) =
     Inr \<lparr>ret_results = PList [okta_item 9, okta_item 0], ret_response = okta_response,
          ret_error = PNone, ret_page_count = 3\<rparr>"
proof -
  have h1: "truthy PNone \<or> iterate (PList [okta_item 9]) = Inr [okta_item 9]" by simp
  have h2: "raises_only_Exceptions broken_second_fetch"
    by (simp add: raises_only_Exceptions_def broken_second_fetch_def)
  have v: "paginate_okta_response 5 broken_second_fetch (PList [okta_item 9]) okta_response PNone =
     \<lparr>returned = Inr \<lparr>ret_results = PList [okta_item 9, okta_item 0], ret_response = okta_response,
          ret_error = PNone, ret_page_count = 3\<rparr>, next_calls = 2, has_next_calls = 2\<rparr>"
    by code_simp
  from walk_returns_normally[OF h1 h2, of 5 okta_response] obtain r where
    "returned (paginate_okta_response 5 broken_second_fetch (PList [okta_item 9]) okta_response PNone) = Inr r"
    by blast
  moreover have "is_Exception (Exn ''RuntimeError'' ''connection reset'' PNone)"
    by simp
  ultimately show ?thesis using v by simp
qed

section \<open>Invariants of the request manager\<close>

text \<open>What one step, and then a run, does to the limit, the counter and the slots.\<close>

lemma length_remove1_Suc: "t \<in> set xs \<Longrightarrow> Suc (length (remove1 t xs)) = length xs"
  using length_pos_if_in_set[of t xs] by (simp add: length_remove1)

lemma rm_step_limit: "rm_step ev s = Some s' \<Longrightarrow> concurrent_limit s' = concurrent_limit s"
  by (cases ev)
     (auto simp: execute_admit_def release_slot_def split: if_splits list.splits)

lemma rm_step_bounded:
  assumes "rm_step ev s = Some s'" and "active_requests s \<le> concurrent_limit s"
  shows "active_requests s' \<le> concurrent_limit s'"
  using assms
  by (cases ev)
     (auto simp: execute_admit_def release_slot_def split: if_splits list.splits)

lemma rm_step_slots:
  assumes "rm_step ev s = Some s'"
  shows "active_requests s' - int (holders s') = active_requests s - int (holders s)"
proof (cases ev)
  case (Submit t)
  with assms show ?thesis by (auto simp: execute_admit_def holders_def)
next
  case (Finish t ok)
  with assms have t: "t \<in> set (running s)" by (simp split: if_splits)
  from length_remove1_Suc[OF t] Finish assms t show ?thesis
    by (auto simp: holders_def)
next
  case (Release t)
  with assms have t: "t \<in> set (releasing s)" by (simp split: if_splits)
  from length_remove1_Suc[OF t] Release assms t show ?thesis
    by (cases "request_queue s") (auto simp: holders_def release_slot_def)
next
  case (Start t)
  with assms have t: "t \<in> set (spawned s)" by (simp split: if_splits)
  from length_remove1_Suc[OF t] Start assms t show ?thesis
    by (auto simp: holders_def)
qed

lemma run_limit: "run evs s = Some s' \<Longrightarrow> concurrent_limit s' = concurrent_limit s"
  by (induction evs arbitrary: s) (auto split: option.splits dest: rm_step_limit)

lemma run_bounded:
  "run evs s = Some s' \<Longrightarrow> active_requests s \<le> concurrent_limit s
   \<Longrightarrow> active_requests s' \<le> concurrent_limit s'"
  by (induction evs arbitrary: s) (auto split: option.splits dest: rm_step_bounded)

lemma run_slots:
  "run evs s = Some s' \<Longrightarrow>
   active_requests s' - int (holders s') = active_requests s - int (holders s)"
proof (induction evs arbitrary: s)
  case Nil
  then show ?case by simp
next
  case (Cons ev evs)
  then obtain s1 where 1: "rm_step ev s = Some s1" and 2: "run evs s1 = Some s'"
    by (auto split: option.splits)
  from Cons.IH[OF 2] rm_step_slots[OF 1] show ?case by simp
qed

text \<open>A request leaves the queue only in the hand-over of \<open>release_slot\<close>.\<close>

lemma rm_step_dequeue:
  assumes "rm_step ev s = Some s'" and "length (request_queue s') < length (request_queue s)"
  shows "(\<exists>t. ev = Release t \<and> t \<in> set (releasing s)) \<and>
         request_queue s = hd (request_queue s) # request_queue s' \<and>
         spawned s' = spawned s @ [hd (request_queue s)] \<and>
         active_requests s' = active_requests s"
  using assms
  by (cases ev)
     (auto simp: execute_admit_def release_slot_def split: if_splits list.splits)



lemma new_request_manager_simps:
  "concurrent_limit (new_request_manager limit) = limit"
  "active_requests (new_request_manager limit) = 0"
  "holders (new_request_manager limit) = 0"
  by (simp_all add: new_request_manager_def holders_def)

text \<open>
  Claim C2. In every state that a manager built with a non-negative limit reaches by
  submit, finish, release and start steps, at most \<^verbatim>\<open>concurrent_limit\<close> calls are
  running, and \<^verbatim>\<open>active_requests\<close>, which counts exactly the calls holding a slot,
  does not exceed the limit. A request leaves the queue only in the release step of a
  completed call: it is the head of the queue, it is handed to \<^verbatim>\<open>create_task\<close>, and
  the counter is not touched, the slot passing from the one call to the other; and only
  a request handed over in this way can be started.
\<close>

theorem concurrency_never_exceeds_limit:
  assumes "0 \<le> limit" and "run evs (new_request_manager limit) = Some s"
  shows "int (length (running s)) \<le> limit \<and>
         active_requests s \<le> limit \<and>
         active_requests s = int (holders s) \<and>
         concurrent_limit s = limit \<and>
         (\<forall>ev s'. rm_step ev s = Some s' \<and> length (request_queue s') < length (request_queue s) \<longrightarrow>
            (\<exists>t. ev = Release t \<and> t \<in> set (releasing s)) \<and>
            request_queue s = hd (request_queue s) # request_queue s' \<and>
            spawned s' = spawned s @ [hd (request_queue s)] \<and>
            active_requests s' = active_requests s) \<and>
         (\<forall>t s'. rm_step (Start t) s = Some s' \<longrightarrow> t \<in> set (spawned s))"
proof -
  have lim: "concurrent_limit s = limit"
    using run_limit[OF assms(2)] by (simp add: new_request_manager_simps)
  have "active_requests s \<le> concurrent_limit s"
    using run_bounded[OF assms(2)] assms(1) by (simp add: new_request_manager_simps)
  with lim have act: "active_requests s \<le> limit" by simp
  have slots: "active_requests s = int (holders s)"
    using run_slots[OF assms(2)] by (simp add: new_request_manager_simps)
  have "int (length (running s)) \<le> int (holders s)" by (simp add: holders_def)
  with slots act have running: "int (length (running s)) \<le> limit" by simp
  have handover: "\<forall>ev s'. rm_step ev s = Some s' \<and> length (request_queue s') < length (request_queue s) \<longrightarrow>
            (\<exists>t. ev = Release t \<and> t \<in> set (releasing s)) \<and>
            request_queue s = hd (request_queue s) # request_queue s' \<and>
            spawned s' = spawned s @ [hd (request_queue s)] \<and>
            active_requests s' = active_requests s"
    using rm_step_dequeue by blast
  have start: "\<forall>t s'. rm_step (Start t) s = Some s' \<longrightarrow> t \<in> set (spawned s)"
    by (auto split: if_splits)
  from running act slots lim handover start show ?thesis by blast
qed

theorem concurrency_never_exceeds_limit_witness:
  "(0::int) \<le> 2 \<and>
   run five_calls_limit_two (new_request_manager 2) =
     Some \<lparr>concurrent_limit = 2, active_requests = 2, request_queue = [4, 5],
           running = [2, 3], releasing = [], spawned = [],
           settled = [(1, True)]\<rparr> \<and>
   int (length (running \<lparr>concurrent_limit = 2, active_requests = 2, request_queue = [4, 5],
           running = [2, 3], releasing = [], spawned = [],
           settled = [(1, True)]\<rparr>)) \<le> 2 \<and>
   active_requests \<lparr>concurrent_limit = 2, active_requests = 2, request_queue = [4, 5],
           running = [2, 3], releasing = [], spawned = [],
           settled = [(1, True)]\<rparr> \<le> 2"
proof -
  have h1: "(0::int) \<le> 2" by simp
  have h2: "run five_calls_limit_two (new_request_manager 2) =
     Some \<lparr>concurrent_limit = 2, active_requests = 2, request_queue = [4, 5],
           running = [2, 3], releasing = [], spawned = [],
           settled = [(1, True)]\<rparr>"
    by (simp add: five_calls_limit_two_def new_request_manager_def execute_admit_def
        release_slot_def)
  from concurrency_never_exceeds_limit[OF h1 h2] h1 h2 show ?thesis by blast
qed



end
